theory Spec2Isabelle
  imports Main "HOL-Library.Multiset"
begin

section \<open>The rewind queue of src/network/rewind\_queue.cpp\<close>

subsection \<open>Records of the queue\<close>

text \<open>
  Modelled from the spec: the class \<open>RewindInfo\<close> and its two subclasses
  (\<open>RewindInfoState\<close>, \<open>RewindInfoEvent\<close>) are declared in
  network/rewind\_info.hpp, which is not among the sources. A Record is a State or an
  Event at a tick, confirmed or not, with a reference to its owner and an opaque payload.
  The references are kept as plain handles. Ticks are C++ \<open>int\<close>; the queue only
  copies and compares them, no arithmetic is done on them, so they are modelled as
  \<open>int\<close>.
\<close>

datatype rewind_kind = KState | KEvent

record RewindInfo =
  m_ticks :: int
  m_is_confirmed :: bool
  m_kind :: rewind_kind
  m_rewinder :: nat
  m_buffer :: nat

definition getTicks :: "RewindInfo \<Rightarrow> int" where
  "getTicks ri = m_ticks ri"

definition setTicks :: "int \<Rightarrow> RewindInfo \<Rightarrow> RewindInfo" where
  "setTicks t ri = ri\<lparr>m_ticks := t\<rparr>"

definition isConfirmed :: "RewindInfo \<Rightarrow> bool" where
  "isConfirmed ri = m_is_confirmed ri"

definition isState :: "RewindInfo \<Rightarrow> bool" where
  "isState ri = (m_kind ri = KState)"

definition isEvent :: "RewindInfo \<Rightarrow> bool" where
  "isEvent ri = (m_kind ri = KEvent)"

definition RewindInfoState :: "int \<Rightarrow> nat \<Rightarrow> nat \<Rightarrow> bool \<Rightarrow> RewindInfo" where
  "RewindInfoState ticks rewinder buffer confirmed =
     \<lparr>m_ticks = ticks, m_is_confirmed = confirmed, m_kind = KState,
      m_rewinder = rewinder, m_buffer = buffer\<rparr>"

definition RewindInfoEvent :: "int \<Rightarrow> nat \<Rightarrow> nat \<Rightarrow> bool \<Rightarrow> RewindInfo" where
  "RewindInfoEvent ticks event_rewinder buffer confirmed =
     \<lparr>m_ticks = ticks, m_is_confirmed = confirmed, m_kind = KEvent,
      m_rewinder = event_rewinder, m_buffer = buffer\<rparr>"

subsection \<open>The queue and the calls it makes\<close>

text \<open>
  The calls a queue operation makes on its collaborators (\<open>undo()\<close> and
  \<open>rewind()\<close> of a Record, the three \<open>Log\<close> functions) are appended to a trace
  that is part of the state.
\<close>

datatype call =
    Undo RewindInfo
  | Rewind RewindInfo
  | LogWarn int int
  | LogInfo bool int
  | LogError int

text \<open>
  \<open>m_all_rewind_info\<close> is a \<open>std::list\<close> and \<open>m_current\<close> an iterator of
  it. The iterator is modelled as the index of the element it refers to, and
  \<open>end()\<close> as the length of the list. \<open>m_network_events\<close> is the vector behind
  the lock; the lock itself is not modelled, every operation runs to completion.
\<close>

record RewindQueue =
  m_all_rewind_info :: "RewindInfo list"
  m_network_events :: "RewindInfo list"
  m_current :: nat
  trace :: "call list"

definition end_of_log :: "RewindQueue \<Rightarrow> nat" where
  "end_of_log q = length (m_all_rewind_info q)"

definition emit :: "call \<Rightarrow> RewindQueue \<Rightarrow> RewindQueue" where
  "emit c q = q\<lparr>trace := trace q @ [c]\<rparr>"

definition reset :: "RewindQueue \<Rightarrow> RewindQueue" where
  "reset q = q\<lparr>m_network_events := [], m_all_rewind_info := [], m_current := 0\<rparr>"

definition new_queue :: RewindQueue where
  "new_queue = \<lparr>m_all_rewind_info = [], m_network_events = [], m_current = 0, trace = []\<rparr>"

subsection \<open>Ordered insertion\<close>

text \<open>
  The backward scan of \<open>insertRewindInfo\<close>: \<open>i\<close> starts at \<open>end()\<close> and moves
  to the predecessor until \<open>begin()\<close> is reached or one of the two \<open>break\<close>
  tests holds for the predecessor.
\<close>

fun insert_scan :: "RewindInfo \<Rightarrow> RewindInfo list \<Rightarrow> nat \<Rightarrow> nat" where
  "insert_scan ri xs 0 = 0"
| "insert_scan ri xs (Suc i_prev) =
     (if getTicks (xs ! i_prev) < getTicks ri then Suc i_prev
      else if getTicks (xs ! i_prev) = getTicks ri \<and> isState (xs ! i_prev) \<and> isEvent ri
           then Suc i_prev
      else insert_scan ri xs i_prev)"

text \<open>
  \<open>std::list::insert\<close> puts the new element before position \<open>i\<close> and returns an
  iterator to it; every other iterator keeps referring to its element, whose index
  moves up by one when the new element lands at or before it.
\<close>

definition insertRewindInfo :: "RewindInfo \<Rightarrow> RewindQueue \<Rightarrow> RewindQueue" where
  "insertRewindInfo ri q =
     (let xs = m_all_rewind_info q;
          i = insert_scan ri xs (length xs);
          xs' = take i xs @ ri # drop i xs
      in if m_current q = length xs
         then q\<lparr>m_all_rewind_info := xs', m_current := i\<rparr>
         else q\<lparr>m_all_rewind_info := xs',
                 m_current := (if i \<le> m_current q then Suc (m_current q) else m_current q)\<rparr>)"

definition addLocalEvent :: "nat \<Rightarrow> nat \<Rightarrow> bool \<Rightarrow> int \<Rightarrow> RewindQueue \<Rightarrow> RewindQueue" where
  "addLocalEvent event_rewinder buffer confirmed ticks q =
     insertRewindInfo (RewindInfoEvent ticks event_rewinder buffer confirmed) q"

definition addLocalState :: "nat \<Rightarrow> nat \<Rightarrow> bool \<Rightarrow> int \<Rightarrow> RewindQueue \<Rightarrow> RewindQueue" where
  "addLocalState rewinder buffer confirmed ticks q =
     insertRewindInfo (RewindInfoState ticks rewinder buffer confirmed) q"

definition addNetworkEvent :: "nat \<Rightarrow> nat \<Rightarrow> int \<Rightarrow> RewindQueue \<Rightarrow> RewindQueue" where
  "addNetworkEvent event_rewinder buffer ticks q =
     q\<lparr>m_network_events :=
          m_network_events q @ [RewindInfoEvent ticks event_rewinder buffer True]\<rparr>"

definition addNetworkState :: "nat \<Rightarrow> nat \<Rightarrow> int \<Rightarrow> RewindQueue \<Rightarrow> RewindQueue" where
  "addNetworkState rewinder buffer ticks q =
     q\<lparr>m_network_events :=
          m_network_events q @ [RewindInfoState ticks rewinder buffer True]\<rparr>"

subsection \<open>Merging the network data\<close>

text \<open>
  Modelled from the spec: \<open>NetworkConfig\<close> is declared in
  network/network\_config.hpp, which is not among the sources. The two role queries
  the merge uses are taken as they are answered.
\<close>

record NetworkConfig =
  isServer :: bool
  isClient :: bool

text \<open>
  The body of the loop of \<open>mergeNetworkData\<close> for an entry \<open>e\<close> that is not
  of the future: the server moves a late entry to \<open>world_ticks\<close>, the entry is
  inserted into the main list, and the client records whether it lies in the past.
\<close>

definition merge_step :: "NetworkConfig \<Rightarrow> int \<Rightarrow> RewindInfo \<Rightarrow> RewindQueue \<times> bool \<times> int
                          \<Rightarrow> RewindQueue \<times> bool \<times> int" where
  "merge_step cfg world_ticks e s =
     (case s of (q, needs_rewind, rewind_ticks) \<Rightarrow>
        let late = (isServer cfg \<and> getTicks e < world_ticks);
            q1 = (if late then emit (LogWarn world_ticks (getTicks e)) q else q);
            e1 = (if late then setTicks world_ticks e else e);
            q2 = insertRewindInfo e1 q1;
            q3 = emit (LogInfo (isEvent e1) (getTicks e1)) q2;
            past = (isClient cfg \<and> getTicks e1 < world_ticks);
            needs_rewind' = (if past then True else needs_rewind);
            rewind_ticks' = (if past \<and> getTicks e1 > rewind_ticks
                             then getTicks e1 else rewind_ticks)
        in (q3, needs_rewind', rewind_ticks'))"

text \<open>
  The loop over the vector \<open>m_network_events\<close>. An entry of the future is stepped
  over and stays in the vector; any other entry goes through the body above and is
  erased from the vector. The first component of the result is what stays in the vector,
  in its order.
\<close>

fun merge_loop :: "NetworkConfig \<Rightarrow> int \<Rightarrow> RewindInfo list \<Rightarrow> RewindQueue \<times> bool \<times> int
                   \<Rightarrow> RewindInfo list \<times> RewindQueue \<times> bool \<times> int" where
  "merge_loop cfg world_ticks [] s = ([], s)"
| "merge_loop cfg world_ticks (e # es) s =
     (if getTicks e > world_ticks
      then (case merge_loop cfg world_ticks es s of (kept, res) \<Rightarrow> (e # kept, res))
      else merge_loop cfg world_ticks es (merge_step cfg world_ticks e s))"

text \<open>
  \<open>mergeNetworkData\<close> writes \<open>*needs_rewind\<close> always and \<open>*rewind_ticks\<close>
  only when the vector is not empty, so the caller's value of \<open>rewind_ticks\<close> is an
  argument and the result carries both.
\<close>

definition mergeNetworkData :: "NetworkConfig \<Rightarrow> int \<Rightarrow> int \<Rightarrow> RewindQueue
                                \<Rightarrow> RewindQueue \<times> bool \<times> int" where
  "mergeNetworkData cfg world_ticks rewind_ticks q =
     (if m_network_events q = [] then (q, False, rewind_ticks)
      else case merge_loop cfg world_ticks (m_network_events q) (q, False, - 9999) of
             (kept, q', needs_rewind', rewind_ticks') \<Rightarrow>
               (q'\<lparr>m_network_events := kept\<rparr>, needs_rewind', rewind_ticks'))"

subsection \<open>Queries\<close>

definition isEmpty :: "RewindQueue \<Rightarrow> bool" where
  "isEmpty q = (m_current q = end_of_log q)"

definition hasMoreRewindInfo :: "RewindQueue \<Rightarrow> bool" where
  "hasMoreRewindInfo q = (m_current q \<noteq> end_of_log q)"

text \<open>
  Modelled from the spec: \<open>getCurrent\<close> is defined in network/rewind\_queue.hpp,
  which is not among the sources. It resolves to the Record at the Cursor; there is none
  when the Cursor is at end-of-log.
\<close>

definition getCurrent :: "RewindQueue \<Rightarrow> RewindInfo option" where
  "getCurrent q =
     (if m_current q < end_of_log q then Some (m_all_rewind_info q ! m_current q) else None)"

subsection \<open>Undo and replay\<close>

text \<open>
  Dereferencing \<open>end()\<close> is undefined behaviour in C++; it is the one fault of the
  model.
\<close>

datatype fault = DerefEnd

text \<open>
  The test that ends the undo walk with a \<open>return\<close>.
\<close>

definition undo_target :: "int \<Rightarrow> RewindInfo \<Rightarrow> bool" where
  "undo_target undo_ticks ri =
     (getTicks ri \<le> undo_ticks \<and> isState ri \<and> isConfirmed ri)"

text \<open>
  The \<open>do ... while\<close> loop of \<open>undoUntil\<close>, entered with the Cursor on an
  element. Decrementing the iterator at \<open>begin()\<close> yields \<open>end()\<close>: the list
  is circular through its sentinel node, and the loop's exit test relies on it. The
  result is the Cursor, the trace and the value returned by a \<open>return\<close> inside the
  loop, if any.
\<close>

fun undo_loop :: "int \<Rightarrow> RewindInfo list \<Rightarrow> nat \<Rightarrow> call list \<Rightarrow> nat \<times> call list \<times> int option" where
  "undo_loop undo_ticks xs 0 tr =
     (let tr' = tr @ [Undo (xs ! 0)]
      in if undo_target undo_ticks (xs ! 0) then (0, tr', Some (getTicks (xs ! 0)))
         else (length xs, tr', None))"
| "undo_loop undo_ticks xs (Suc c) tr =
     (let tr' = tr @ [Undo (xs ! Suc c)]
      in if undo_target undo_ticks (xs ! Suc c)
         then (Suc c, tr', Some (getTicks (xs ! Suc c)))
         else undo_loop undo_ticks xs c tr')"

definition undoUntil :: "int \<Rightarrow> RewindQueue \<Rightarrow> fault + (RewindQueue \<times> int)" where
  "undoUntil undo_ticks q =
     (let xs = m_all_rewind_info q;
          c = (if m_current q \<noteq> 0 then m_current q - 1 else m_current q)
      in if c < length xs
         then (case undo_loop undo_ticks xs c (trace q) of
                 (c', tr', Some t) \<Rightarrow> Inr (q\<lparr>m_current := c', trace := tr'\<rparr>, t)
               | (c', tr', None) \<Rightarrow>
                   Inr (q\<lparr>m_current := c', trace := tr' @ [LogError undo_ticks]\<rparr>, - 1))
         else Inl DerefEnd)"

text \<open>
  The loop of \<open>replayAllEvents\<close>. The Cursor differs from \<open>end()\<close> exactly when
  it is an index of the list.
\<close>

function replay_loop :: "int \<Rightarrow> RewindInfo list \<Rightarrow> nat \<Rightarrow> call list \<Rightarrow> nat \<times> call list" where
  "replay_loop ticks xs c tr =
     (if c < length xs \<and> getTicks (xs ! c) = ticks
      then let tr' = (if isEvent (xs ! c) then tr @ [Rewind (xs ! c)] else tr)
           in if Suc c = length xs then (Suc c, tr')
              else replay_loop ticks xs (Suc c) tr'
      else (c, tr))"
  by pat_completeness auto
termination
  by (relation "measure (\<lambda>(ticks, xs, c, tr). length xs - c)") auto

declare replay_loop.simps [simp del]

definition replayAllEvents :: "int \<Rightarrow> RewindQueue \<Rightarrow> RewindQueue" where
  "replayAllEvents ticks q =
     (case replay_loop ticks (m_all_rewind_info q) (m_current q) (trace q) of
        (c', tr') \<Rightarrow> q\<lparr>m_current := c', trace := tr'\<rparr>)"

section \<open>Notions used in the statements\<close>

text \<open>
  Two Records are in order when the first one's tick is not larger and, at equal ticks,
  the first is not an Event while the second is a State. The main list is ordered when
  every Record is in order with every later one.
\<close>

definition in_order :: "RewindInfo \<Rightarrow> RewindInfo \<Rightarrow> bool" where
  "in_order a b =
     (getTicks a \<le> getTicks b \<and> \<not> (getTicks a = getTicks b \<and> isEvent a \<and> isState b))"

definition ordered_log :: "RewindInfo list \<Rightarrow> bool" where
  "ordered_log xs = sorted_wrt in_order xs"

text \<open>The two \<open>break\<close> tests of the backward scan, on the predecessor.\<close>

definition scan_stop :: "RewindInfo \<Rightarrow> RewindInfo \<Rightarrow> bool" where
  "scan_stop ri prev =
     (getTicks prev < getTicks ri \<or>
      (getTicks prev = getTicks ri \<and> isState prev \<and> isEvent ri))"

text \<open>\<open>precedes a b xs\<close>: some occurrence of \<open>a\<close> in \<open>xs\<close> has \<open>b\<close> after it.\<close>

fun precedes :: "'a \<Rightarrow> 'a \<Rightarrow> 'a list \<Rightarrow> bool" where
  "precedes a b [] = False"
| "precedes a b (x # xs) = ((x = a \<and> b \<in> set xs) \<or> precedes a b xs)"

text \<open>The operations that add Records, as a caller issues them one after the other.\<close>

datatype queue_op =
    AddLocalEvent nat nat bool int
  | AddLocalState nat nat bool int
  | AddNetworkEvent nat nat int
  | AddNetworkState nat nat int
  | MergeNetworkData NetworkConfig int
  | ReplayAllEvents int
  | Reset

fun apply_op :: "queue_op \<Rightarrow> RewindQueue \<Rightarrow> RewindQueue" where
  "apply_op (AddLocalEvent er b c t) q = addLocalEvent er b c t q"
| "apply_op (AddLocalState r b c t) q = addLocalState r b c t q"
| "apply_op (AddNetworkEvent er b t) q = addNetworkEvent er b t q"
| "apply_op (AddNetworkState r b t) q = addNetworkState r b t q"
| "apply_op (MergeNetworkData cfg world_ticks) q = fst (mergeNetworkData cfg world_ticks 0 q)"
| "apply_op (ReplayAllEvents t) q = replayAllEvents t q"
| "apply_op Reset q = reset q"

text \<open>The tick an entry of the vector has when the merge inserts it.\<close>

definition merged_entry :: "NetworkConfig \<Rightarrow> int \<Rightarrow> RewindInfo \<Rightarrow> RewindInfo" where
  "merged_entry cfg world_ticks e =
     (if isServer cfg \<and> getTicks e < world_ticks then setTicks world_ticks e else e)"

section \<open>Auxiliary facts\<close>

lemma kind_cases: "isState r \<or> isEvent r"
  by (cases "m_kind r") (simp_all add: isState_def isEvent_def)

lemma kind_excl: "isState r \<Longrightarrow> \<not> isEvent r"
  by (simp add: isState_def isEvent_def)

lemma in_order_trans: "in_order a b \<Longrightarrow> in_order b c \<Longrightarrow> in_order a c"
  using kind_cases [of b] kind_excl [of b]
  by (auto simp: in_order_def)

lemma scan_stop_in_order: "scan_stop ri p \<Longrightarrow> in_order p ri"
  by (auto simp: scan_stop_def in_order_def dest: kind_excl)

lemma not_scan_stop_in_order: "\<not> scan_stop ri p \<Longrightarrow> in_order ri p"
  using kind_cases [of p] kind_cases [of ri]
  by (auto simp: scan_stop_def in_order_def dest: kind_excl)

lemma insert_scan_le: "insert_scan ri xs n \<le> n"
  by (induction n) (auto simp: le_Suc_eq)

lemma insert_scan_above:
  "insert_scan ri xs n \<le> k \<Longrightarrow> k < n \<Longrightarrow> \<not> scan_stop ri (xs ! k)"
proof (induction n)
  case 0
  then show ?case by simp
next
  case (Suc n)
  show ?case
  proof (cases "scan_stop ri (xs ! n)")
    case True
    then have "insert_scan ri xs (Suc n) = Suc n"
      by (auto simp: scan_stop_def)
    with Suc.prems show ?thesis by simp
  next
    case False
    then have eq: "insert_scan ri xs (Suc n) = insert_scan ri xs n"
      by (auto simp: scan_stop_def)
    show ?thesis
    proof (cases "k = n")
      case True
      with False show ?thesis by simp
    next
      case neq: False
      with Suc.prems have "k < n" by simp
      with Suc.IH Suc.prems(1) eq show ?thesis by simp
    qed
  qed
qed

lemma insert_scan_below:
  "insert_scan ri xs n = Suc p \<Longrightarrow> scan_stop ri (xs ! p)"
proof (induction n)
  case 0
  then show ?case by simp
next
  case (Suc n)
  then show ?case
    by (auto simp: scan_stop_def split: if_splits)
qed

lemma ordered_log_insert:
  assumes "ordered_log xs"
  shows "ordered_log (take (insert_scan ri xs (length xs)) xs @ ri #
                      drop (insert_scan ri xs (length xs)) xs)"
proof -
  let ?i = "insert_scan ri xs (length xs)"
  have le: "?i \<le> length xs" by (rule insert_scan_le)
  have srt: "sorted_wrt in_order xs" using assms by (simp add: ordered_log_def)
  have s1: "sorted_wrt in_order (take ?i xs)"
    using srt by (rule sorted_wrt_take)
  have s2: "sorted_wrt in_order (drop ?i xs)"
    using srt by (rule sorted_wrt_drop)
  have after: "in_order ri y" if "y \<in> set (drop ?i xs)" for y
  proof -
    from that obtain k where k: "k < length xs - ?i" "y = xs ! (?i + k)"
      by (auto simp: in_set_conv_nth)
    then have "\<not> scan_stop ri (xs ! (?i + k))"
      by (intro insert_scan_above [of ri xs "length xs"]) auto
    with k show ?thesis by (simp add: not_scan_stop_in_order)
  qed
  have before: "in_order x ri" if "x \<in> set (take ?i xs)" for x
  proof -
    from that obtain k where k: "k < ?i" "x = xs ! k"
      by (auto simp: in_set_conv_nth)
    then obtain p where p: "?i = Suc p" by (cases ?i) auto
    then have stop: "in_order (xs ! p) ri"
      by (intro scan_stop_in_order insert_scan_below [of ri xs "length xs"])
    show ?thesis
    proof (cases "k = p")
      case True
      with stop k show ?thesis by simp
    next
      case False
      with k p have "k < p" "p < length xs" using le by auto
      with srt have "in_order (xs ! k) (xs ! p)"
        by (simp add: sorted_wrt_iff_nth_less)
      with stop k show ?thesis by (auto intro: in_order_trans)
    qed
  qed
  have cross: "in_order x y" if "x \<in> set (take ?i xs)" "y \<in> set (drop ?i xs)" for x y
    using before [OF that(1)] after [OF that(2)] by (rule in_order_trans)
  show ?thesis
    unfolding ordered_log_def
    using s1 s2 before after cross
    by (auto simp: sorted_wrt_append)
qed

lemma insertRewindInfo_log:
  "m_all_rewind_info (insertRewindInfo ri q) =
     take (insert_scan ri (m_all_rewind_info q) (length (m_all_rewind_info q))) (m_all_rewind_info q)
     @ ri # drop (insert_scan ri (m_all_rewind_info q) (length (m_all_rewind_info q))) (m_all_rewind_info q)"
  by (simp add: insertRewindInfo_def Let_def)

lemma insertRewindInfo_inbox:
  "m_network_events (insertRewindInfo ri q) = m_network_events q"
  by (simp add: insertRewindInfo_def Let_def)

lemma insertRewindInfo_trace:
  "trace (insertRewindInfo ri q) = trace q"
  by (simp add: insertRewindInfo_def Let_def)

lemma insertRewindInfo_ordered:
  "ordered_log (m_all_rewind_info q) \<Longrightarrow> ordered_log (m_all_rewind_info (insertRewindInfo ri q))"
  by (simp only: insertRewindInfo_log ordered_log_insert)

lemma emit_log [simp]: "m_all_rewind_info (emit c q) = m_all_rewind_info q"
  by (simp add: emit_def)


lemma emit_inbox [simp]: "m_network_events (emit c q) = m_network_events q"
  by (simp add: emit_def)

lemma emit_current [simp]: "m_current (emit c q) = m_current q"
  by (simp add: emit_def)

lemma merge_loop_eq:
  "merge_loop cfg wt es s =
     (filter (\<lambda>e. wt < getTicks e) es,
      fold (merge_step cfg wt) (filter (\<lambda>e. getTicks e \<le> wt) es) s)"
  by (induction es arbitrary: s) (auto simp: not_less)

lemma merge_step_log:
  "m_all_rewind_info (fst (merge_step cfg wt e s)) =
     m_all_rewind_info (insertRewindInfo (merged_entry cfg wt e) (fst s))"
  by (cases s) (simp add: merge_step_def merged_entry_def Let_def insertRewindInfo_log)

lemma insertRewindInfo_log_cong:
  "m_all_rewind_info q = m_all_rewind_info q' \<Longrightarrow>
   m_all_rewind_info (insertRewindInfo ri q) = m_all_rewind_info (insertRewindInfo ri q')"
  by (simp add: insertRewindInfo_log)

lemma fold_merge_step_log:
  "m_all_rewind_info (fst s) = m_all_rewind_info q \<Longrightarrow>
   m_all_rewind_info (fst (fold (merge_step cfg wt) ds s)) =
     m_all_rewind_info (fold insertRewindInfo (map (merged_entry cfg wt) ds) q)"
proof (induction ds arbitrary: s q)
  case Nil
  then show ?case by simp
next
  case (Cons d ds)
  have "m_all_rewind_info (fst (merge_step cfg wt d s)) =
        m_all_rewind_info (insertRewindInfo (merged_entry cfg wt d) q)"
    using Cons.prems by (simp add: merge_step_log insertRewindInfo_log)
  then show ?case
    by (simp add: Cons.IH)
qed

lemma fold_insert_ordered:
  "ordered_log (m_all_rewind_info q) \<Longrightarrow>
   ordered_log (m_all_rewind_info (fold insertRewindInfo rs q))"
  by (induction rs arbitrary: q) (simp_all add: insertRewindInfo_ordered)

lemma mergeNetworkData_eq:
  "mergeNetworkData cfg wt rt q =
     (if m_network_events q = [] then (q, False, rt)
      else ((fst (fold (merge_step cfg wt)
                   (filter (\<lambda>e. getTicks e \<le> wt) (m_network_events q)) (q, False, - 9999)))
               \<lparr>m_network_events := filter (\<lambda>e. wt < getTicks e) (m_network_events q)\<rparr>,
            snd (fold (merge_step cfg wt)
                   (filter (\<lambda>e. getTicks e \<le> wt) (m_network_events q)) (q, False, - 9999))))"
  by (simp add: mergeNetworkData_def merge_loop_eq split: prod.splits)

lemma mergeNetworkData_log:
  "m_all_rewind_info (fst (mergeNetworkData cfg wt rt q)) =
     m_all_rewind_info (fold insertRewindInfo
        (map (merged_entry cfg wt) (filter (\<lambda>e. getTicks e \<le> wt) (m_network_events q))) q)"
  using fold_merge_step_log [of "(q, False, - 9999)" q cfg wt]
  by (simp add: mergeNetworkData_eq)

lemma mergeNetworkData_inbox:
  "m_network_events (fst (mergeNetworkData cfg wt rt q)) =
     filter (\<lambda>e. wt < getTicks e) (m_network_events q)"
  by (simp add: mergeNetworkData_eq)

lemma mergeNetworkData_ordered:
  "ordered_log (m_all_rewind_info q) \<Longrightarrow>
   ordered_log (m_all_rewind_info (fst (mergeNetworkData cfg wt rt q)))"
  by (simp only: mergeNetworkData_log fold_insert_ordered)

lemma replayAllEvents_log [simp]:
  "m_all_rewind_info (replayAllEvents t q) = m_all_rewind_info q"
  by (simp add: replayAllEvents_def split: prod.splits)

lemma apply_op_ordered:
  "ordered_log (m_all_rewind_info q) \<Longrightarrow> ordered_log (m_all_rewind_info (apply_op a q))"
  by (cases a)
     (simp_all add: addLocalEvent_def addLocalState_def addNetworkEvent_def
        addNetworkState_def reset_def insertRewindInfo_ordered mergeNetworkData_ordered,
      simp add: ordered_log_def)

lemma fold_apply_op_ordered:
  "ordered_log (m_all_rewind_info q) \<Longrightarrow>
   ordered_log (m_all_rewind_info (fold apply_op ops q))"
  by (induction ops arbitrary: q) (simp_all add: apply_op_ordered)

lemma insert_scan_bound:
  "(\<And>k. m \<le> k \<Longrightarrow> k < n \<Longrightarrow> \<not> scan_stop ri (xs ! k)) \<Longrightarrow> insert_scan ri xs n \<le> m"
proof (induction n)
  case 0
  then show ?case by simp
next
  case (Suc n)
  show ?case
  proof (cases "m \<le> n")
    case True
    with Suc.prems have "\<not> scan_stop ri (xs ! n)" by simp
    then have "insert_scan ri xs (Suc n) = insert_scan ri xs n"
      by (auto simp: scan_stop_def)
    moreover have "insert_scan ri xs n \<le> m"
      using Suc.prems by (intro Suc.IH) simp
    ultimately show ?thesis by simp
  next
    case False
    then have "Suc n \<le> m" by simp
    with insert_scan_le [of ri xs "Suc n"] show ?thesis by linarith
  qed
qed

lemma precedes_append: "b \<in> set vs \<Longrightarrow> precedes a b (us @ a # vs)"
  by (induction us) simp_all

lemma scan_stop_same_state:
  "isState a \<Longrightarrow> isState b \<Longrightarrow> getTicks a = getTicks b \<Longrightarrow> scan_stop b r = scan_stop a r"
  by (auto simp: scan_stop_def dest: kind_excl)

lemma scan_stop_self:
  "isState a \<Longrightarrow> isState b \<Longrightarrow> getTicks a = getTicks b \<Longrightarrow> \<not> scan_stop b a"
  by (auto simp: scan_stop_def dest: kind_excl)

lemma replay_loop_eq:
  "replay_loop t xs c tr =
     (c + length (takeWhile (\<lambda>r. getTicks r = t) (drop c xs)),
      tr @ map Rewind (filter isEvent (takeWhile (\<lambda>r. getTicks r = t) (drop c xs))))"
proof (induction t xs c tr rule: replay_loop.induct)
  case (1 t xs c tr)
  show ?case
  proof (cases "c < length xs")
    case False
    then show ?thesis by (simp add: replay_loop.simps [of t xs c tr])
  next
    case True
    then have dr: "drop c xs = xs ! c # drop (Suc c) xs"
      by (simp add: Cons_nth_drop_Suc)
    show ?thesis
    proof (cases "getTicks (xs ! c) = t")
      case False
      with True dr show ?thesis by (simp add: replay_loop.simps [of t xs c tr])
    next
      case tick: True
      show ?thesis
      proof (cases "Suc c = length xs")
        case last: True
        then have "drop (Suc c) xs = []" by simp
        with True tick dr last show ?thesis
          by (simp add: replay_loop.simps [of t xs c tr])
      next
        case more: False
        have "replay_loop t xs c tr =
              replay_loop t xs (Suc c) (if isEvent (xs ! c) then tr @ [Rewind (xs ! c)] else tr)"
          using True tick more by (simp add: replay_loop.simps [of t xs c tr])
        also have "\<dots> = (Suc c + length (takeWhile (\<lambda>r. getTicks r = t) (drop (Suc c) xs)),
            (if isEvent (xs ! c) then tr @ [Rewind (xs ! c)] else tr) @
            map Rewind (filter isEvent (takeWhile (\<lambda>r. getTicks r = t) (drop (Suc c) xs))))"
          using True tick more by (intro "1.IH") simp_all
        finally show ?thesis
          using tick dr by simp
      qed
    qed
  qed
qed

lemma undo_loop_found:
  "k \<le> c \<Longrightarrow> undo_target ut (xs ! k) \<Longrightarrow>
   (\<And>j. k < j \<Longrightarrow> j \<le> c \<Longrightarrow> \<not> undo_target ut (xs ! j)) \<Longrightarrow>
   undo_loop ut xs c tr =
     (k, tr @ map (\<lambda>j. Undo (xs ! j)) (rev [k..<Suc c]), Some (getTicks (xs ! k)))"
proof (induction c arbitrary: tr)
  case 0
  then show ?case by simp
next
  case (Suc c)
  show ?case
  proof (cases "k = Suc c")
    case True
    with Suc.prems(2) show ?thesis by simp
  next
    case False
    with Suc.prems(1) have kc: "k \<le> c" by simp
    then have "k < Suc c" by simp
    then have no: "\<not> undo_target ut (xs ! Suc c)"
      by (rule Suc.prems(3)) simp
    have "undo_loop ut xs c (tr @ [Undo (xs ! Suc c)]) =
            (k, (tr @ [Undo (xs ! Suc c)]) @ map (\<lambda>j. Undo (xs ! j)) (rev [k..<Suc c]),
             Some (getTicks (xs ! k)))"
      using kc Suc.prems(2) Suc.prems(3) by (intro Suc.IH) simp_all
    with no kc show ?thesis by simp
  qed
qed

lemma undo_loop_not_found:
  "(\<And>j. j \<le> c \<Longrightarrow> \<not> undo_target ut (xs ! j)) \<Longrightarrow>
   undo_loop ut xs c tr =
     (length xs, tr @ map (\<lambda>j. Undo (xs ! j)) (rev [0..<Suc c]), None)"
proof (induction c arbitrary: tr)
  case 0
  then show ?case by simp
next
  case (Suc c)
  have no: "\<not> undo_target ut (xs ! Suc c)"
    by (rule Suc.prems) simp
  have "undo_loop ut xs c (tr @ [Undo (xs ! Suc c)]) =
          (length xs, (tr @ [Undo (xs ! Suc c)]) @ map (\<lambda>j. Undo (xs ! j)) (rev [0..<Suc c]),
           None)"
    using Suc.prems by (intro Suc.IH) simp
  with no show ?case by simp
qed

lemma undoUntil_found:
  assumes "c = (if m_current q \<noteq> 0 then m_current q - 1 else m_current q)"
    and "c < length (m_all_rewind_info q)"
    and "k \<le> c"
    and "undo_target undo_ticks (m_all_rewind_info q ! k)"
    and "\<And>j. k < j \<Longrightarrow> j \<le> c \<Longrightarrow> \<not> undo_target undo_ticks (m_all_rewind_info q ! j)"
  shows "undoUntil undo_ticks q =
     Inr (q\<lparr>m_current := k,
             trace := trace q @ map (\<lambda>j. Undo (m_all_rewind_info q ! j)) (rev [k..<Suc c])\<rparr>,
          getTicks (m_all_rewind_info q ! k))"
proof -
  have "undo_loop undo_ticks (m_all_rewind_info q) c (trace q) =
     (k, trace q @ map (\<lambda>j. Undo (m_all_rewind_info q ! j)) (rev [k..<Suc c]),
      Some (getTicks (m_all_rewind_info q ! k)))"
    using assms(3,4,5) by (rule undo_loop_found)
  with assms(1,2) show ?thesis
    by (simp add: undoUntil_def Let_def)
qed

lemma undoUntil_not_found:
  assumes "c = (if m_current q \<noteq> 0 then m_current q - 1 else m_current q)"
    and "c < length (m_all_rewind_info q)"
    and "\<And>j. j \<le> c \<Longrightarrow> \<not> undo_target undo_ticks (m_all_rewind_info q ! j)"
  shows "undoUntil undo_ticks q =
     Inr (q\<lparr>m_current := length (m_all_rewind_info q),
             trace := trace q @ map (\<lambda>j. Undo (m_all_rewind_info q ! j)) (rev [0..<Suc c])
                      @ [LogError undo_ticks]\<rparr>,
          - 1)"
proof -
  have "undo_loop undo_ticks (m_all_rewind_info q) c (trace q) =
     (length (m_all_rewind_info q),
      trace q @ map (\<lambda>j. Undo (m_all_rewind_info q ! j)) (rev [0..<Suc c]), None)"
    using assms(3) by (rule undo_loop_not_found)
  with assms(1,2) show ?thesis
    by (simp add: undoUntil_def Let_def)
qed

lemma map_nth_rev_upt:
  "map (\<lambda>j. (x # xs) ! j) (rev [0..<Suc (length xs)]) = rev xs @ [x]"
proof -
  have "map (\<lambda>j. (x # xs) ! j) [0..<length (x # xs)] = x # xs"
    by (rule map_nth)
  then have "rev (map (\<lambda>j. (x # xs) ! j) [0..<Suc (length xs)]) = rev (x # xs)"
    by simp
  then show ?thesis by (simp only: rev_map rev.simps)
qed

lemma undoUntil_scenario:
  assumes "m_all_rewind_info q = s # evs"
    and "m_current q = length (s # evs)"
    and "undo_target undo_ticks s"
    and "list_all isEvent evs"
  shows "undoUntil undo_ticks q =
     Inr (q\<lparr>m_current := 0, trace := trace q @ map Undo (rev evs) @ [Undo s]\<rparr>, getTicks s)"
proof -
  have no: "\<not> undo_target undo_ticks (m_all_rewind_info q ! j)"
    if "0 < j" "j \<le> length evs" for j
  proof -
    from that obtain j' where j': "j = Suc j'" "j' < length evs"
      by (cases j) auto
    with assms(4) have "isEvent (evs ! j')"
      by (simp add: list_all_length)
    then have "\<not> isState (evs ! j')"
      using kind_excl by blast
    with j' assms(1) show ?thesis
      by (simp add: undo_target_def)
  qed
  have "undoUntil undo_ticks q =
     Inr (q\<lparr>m_current := 0,
             trace := trace q @ map (\<lambda>j. Undo (m_all_rewind_info q ! j))
                        (rev [0..<Suc (length evs)])\<rparr>,
          getTicks (m_all_rewind_info q ! 0))"
    using assms(1,2,3) no by (intro undoUntil_found) simp_all
  moreover have "map (\<lambda>j. Undo ((s # evs) ! j)) (rev [0..<Suc (length evs)]) =
                 map Undo (rev evs @ [s])"
    using map_nth_rev_upt [of s evs, THEN arg_cong, of "map Undo"]
    by (simp only: map_map o_def)
  ultimately show ?thesis
    using assms(1) by simp
qed

lemma getTicks_setTicks [simp]: "getTicks (setTicks t e) = t"
  by (simp add: getTicks_def setTicks_def)

lemma merge_step_client:
  "isClient cfg \<Longrightarrow> \<not> isServer cfg \<Longrightarrow>
   snd (merge_step cfg wt e (q, nr, rt)) =
     (nr \<or> getTicks e < wt, if getTicks e < wt then max (getTicks e) rt else rt)"
  by (simp add: merge_step_def Let_def max_def)

lemma fold_merge_step_client:
  "isClient cfg \<Longrightarrow> \<not> isServer cfg \<Longrightarrow>
   snd (fold (merge_step cfg wt) ds (q, nr, rt)) =
     (nr \<or> filter (\<lambda>e. getTicks e < wt) ds \<noteq> [],
      fold max (map getTicks (filter (\<lambda>e. getTicks e < wt) ds)) rt)"
proof (induction ds arbitrary: q nr rt)
  case Nil
  then show ?case by simp
next
  case (Cons d ds)
  obtain q' where q': "merge_step cfg wt d (q, nr, rt) =
      (q', nr \<or> getTicks d < wt, if getTicks d < wt then max (getTicks d) rt else rt)"
    using merge_step_client [OF Cons.prems, of wt d q nr rt]
    by (cases "merge_step cfg wt d (q, nr, rt)") simp
  show ?case
    using Cons.IH [OF Cons.prems] by (simp add: q')
qed

lemma merge_step_server:
  "isServer cfg \<Longrightarrow> getTicks e \<le> wt \<Longrightarrow>
   fst (snd (merge_step cfg wt e (q, nr, rt))) = nr"
  by (simp add: merge_step_def Let_def)

lemma fold_merge_step_server:
  "isServer cfg \<Longrightarrow> (\<And>e. e \<in> set ds \<Longrightarrow> getTicks e \<le> wt) \<Longrightarrow>
   fst (snd (fold (merge_step cfg wt) ds (q, nr, rt))) = nr"
proof (induction ds arbitrary: q nr rt)
  case Nil
  then show ?case by simp
next
  case (Cons d ds)
  have d: "getTicks d \<le> wt" by (rule Cons.prems(2)) simp
  obtain q' rt' where q': "merge_step cfg wt d (q, nr, rt) = (q', nr, rt')"
    using merge_step_server [OF Cons.prems(1) d, of q nr rt]
    by (cases "merge_step cfg wt d (q, nr, rt)") simp
  show ?case
    using Cons.IH [OF Cons.prems(1)] Cons.prems(2) by (simp add: q')
qed

lemma past_filter_drained:
  "filter (\<lambda>e. getTicks e < wt) (filter (\<lambda>e. getTicks e \<le> wt) es) =
   filter (\<lambda>e. getTicks e < (wt::int)) es"
  by (induction es) auto

lemma merged_entry_server:
  "isServer cfg \<Longrightarrow>
   merged_entry cfg wt = (\<lambda>e. if getTicks e < wt then setTicks wt e else e)"
  by (rule ext) (simp add: merged_entry_def)

section \<open>The ordering invariant\<close>

text \<open>
  C1. For every sequence of operations issued on a fresh queue (local insertions through
  \<open>addLocalEvent\<close> and \<open>addLocalState\<close>, network data added to the vector and
  merged through \<open>mergeNetworkData\<close>, on a server or on a client, with replays and
  resets in between), the main list that results is ordered: ticks never decrease from a
  Record to a later one, and at equal ticks no Event stands before a State. The sequence
  is arbitrary, so this holds after each of its operations.
\<close>

theorem ordering_invariant:
  "ordered_log (m_all_rewind_info (fold apply_op ops new_queue))"
  by (rule fold_apply_op_ordered) (simp add: new_queue_def ordered_log_def)

theorem ordering_invariant_witness:
  "ordered_log (m_all_rewind_info (fold apply_op
     [AddLocalEvent 1 0 True 5, AddNetworkState 2 0 3, AddLocalState 3 0 False 5,
      MergeNetworkData \<lparr>isServer = False, isClient = True\<rparr> 7] new_queue))"
  by (rule ordering_invariant)

section \<open>Records of the same tick and kind\<close>

text \<open>
  C2, as the code has it. A State is inserted in front of the Records of its tick: when two
  States with the same tick are inserted one after the other into any main list, the one
  inserted later stands before the one inserted first. (The specification asks for the
  insertion order; the header comment of \<open>insertRewindInfo\<close> says that a State is put
  at the front.)
\<close>

theorem same_tick_states_reversed:
  assumes "isState a" and "isState b" and "getTicks a = getTicks b"
  shows "precedes b a (m_all_rewind_info (insertRewindInfo b (insertRewindInfo a q)))"
proof -
  define xs where "xs = m_all_rewind_info q"
  define i where "i = insert_scan a xs (length xs)"
  define ys where "ys = take i xs @ a # drop i xs"
  define j where "j = insert_scan b ys (length ys)"
  have i: "i \<le> length xs"
    unfolding i_def by (rule insert_scan_le)
  have ys: "m_all_rewind_info (insertRewindInfo a q) = ys"
    unfolding ys_def i_def xs_def by (rule insertRewindInfo_log)
  have len: "length ys = Suc (length xs)"
    using i by (simp add: ys_def)
  have at_i: "ys ! i = a"
    using i by (simp add: ys_def nth_append)
  have pass: "\<not> scan_stop b (ys ! k)" if "i \<le> k" "k < length ys" for k
  proof (cases "k = i")
    case True
    with at_i scan_stop_self [OF assms] show ?thesis by simp
  next
    case False
    define d where "d = k - Suc i"
    with False that len have d: "k = Suc (i + d)" "i + d < length xs"
      by simp_all
    then have "ys ! k = xs ! (i + d)"
      using i by (simp add: ys_def nth_append)
    moreover have "\<not> scan_stop a (xs ! (i + d))"
      using d(2) by (intro insert_scan_above [of a xs "length xs"]) (simp_all add: i_def)
    ultimately show ?thesis
      using scan_stop_same_state [OF assms] by simp
  qed
  have j: "j \<le> i"
    unfolding j_def by (rule insert_scan_bound) (rule pass)
  have "i - j < length (drop j ys)"
    using i j len by simp
  then have "drop j ys ! (i - j) \<in> set (drop j ys)"
    by (rule nth_mem)
  moreover have "drop j ys ! (i - j) = a"
    using i j len at_i by simp
  ultimately have "a \<in> set (drop j ys)"
    by simp
  then have "precedes b a (take j ys @ b # drop j ys)"
    by (rule precedes_append)
  moreover have "m_all_rewind_info (insertRewindInfo b (insertRewindInfo a q)) =
                 take j ys @ b # drop j ys"
    unfolding j_def by (simp only: insertRewindInfo_log [of b] ys)
  ultimately show ?thesis
    by simp
qed

theorem same_tick_states_reversed_witness:
  "precedes (RewindInfoState 5 2 0 True) (RewindInfoState 5 1 0 True)
     (m_all_rewind_info (insertRewindInfo (RewindInfoState 5 2 0 True)
        (insertRewindInfo (RewindInfoState 5 1 0 True) new_queue)))"
  by (rule same_tick_states_reversed) (simp_all add: isState_def RewindInfoState_def getTicks_def)

text \<open>
  C2 as the specification words it fails on a fresh queue: the State added first is not
  before the State added second.
\<close>

theorem stable_insertion_counterexample:
  "m_all_rewind_info (addLocalState 2 0 True 5 (addLocalState 1 0 True 5 new_queue)) =
     [RewindInfoState 5 2 0 True, RewindInfoState 5 1 0 True] \<and>
   \<not> precedes (RewindInfoState 5 1 0 True) (RewindInfoState 5 2 0 True)
     (m_all_rewind_info (addLocalState 2 0 True 5 (addLocalState 1 0 True 5 new_queue)))"
  by (simp add: addLocalState_def insertRewindInfo_def new_queue_def RewindInfoState_def
        getTicks_def isState_def isEvent_def)

text \<open>
  Two Events with the same tick end up in reverse insertion order as well, although the
  header comment puts an Event at the end of the Records of its tick.
\<close>

lemma two_events_same_tick:
  "m_all_rewind_info (addLocalEvent 2 0 True 5 (addLocalEvent 1 0 True 5 new_queue)) =
     [RewindInfoEvent 5 2 0 True, RewindInfoEvent 5 1 0 True]"
  by (simp add: addLocalEvent_def insertRewindInfo_def new_queue_def RewindInfoEvent_def
        getTicks_def isState_def isEvent_def)

section \<open>Undo\<close>

text \<open>
  C3, as the code has it. Let \<open>c\<close> be the position \<open>undoUntil\<close> starts from (one before the
  Cursor, or the Cursor itself when it is at the first Record), a position of the main list,
  which is then not empty. If \<open>k\<close> is the last position up to \<open>c\<close> that holds a
  confirmed State with tick at most \<open>undo_ticks\<close>, then \<open>undoUntil\<close> calls
  \<open>undo()\<close> on the Records at \<open>c\<close>, \<open>c - 1\<close>, ..., \<open>k\<close> in this order
  (the State at \<open>k\<close> included) and on nothing else, leaves the Cursor at \<open>k\<close> and
  returns the tick of that State. In particular, when the main list is a confirmed State of
  tick 0 followed by Events only and the Cursor is at end-of-log, \<open>undoUntil(5)\<close> calls
  \<open>undo()\<close> on every Event, last one first, then on the State, and returns 0. The walk
  starts from the Cursor, so the Events are undone only when the Cursor is behind them.
\<close>

theorem undo_to_confirmed_state:
  "(c = (if m_current q \<noteq> 0 then m_current q - 1 else m_current q) \<and>
    c < length (m_all_rewind_info q) \<and> k \<le> c \<and>
    undo_target undo_ticks (m_all_rewind_info q ! k) \<and>
    (\<forall>j. k < j \<and> j \<le> c \<longrightarrow> \<not> undo_target undo_ticks (m_all_rewind_info q ! j))
    \<longrightarrow>
    undoUntil undo_ticks q =
      Inr (q\<lparr>m_current := k,
              trace := trace q @ map (\<lambda>j. Undo (m_all_rewind_info q ! j)) (rev [k..<Suc c])\<rparr>,
           getTicks (m_all_rewind_info q ! k))) \<and>
   (m_all_rewind_info q' = s # evs \<and> m_current q' = length (s # evs) \<and>
    isState s \<and> isConfirmed s \<and> getTicks s = 0 \<and> list_all isEvent evs
    \<longrightarrow>
    undoUntil 5 q' =
      Inr (q'\<lparr>m_current := 0, trace := trace q' @ map Undo (rev evs) @ [Undo s]\<rparr>, 0))"
proof (intro conjI impI)
  assume h: "c = (if m_current q \<noteq> 0 then m_current q - 1 else m_current q) \<and>
    c < length (m_all_rewind_info q) \<and> k \<le> c \<and>
    undo_target undo_ticks (m_all_rewind_info q ! k) \<and>
    (\<forall>j. k < j \<and> j \<le> c \<longrightarrow> \<not> undo_target undo_ticks (m_all_rewind_info q ! j))"
  then have "\<And>j. k < j \<Longrightarrow> j \<le> c \<Longrightarrow> \<not> undo_target undo_ticks (m_all_rewind_info q ! j)"
    by blast
  with h show "undoUntil undo_ticks q =
      Inr (q\<lparr>m_current := k,
              trace := trace q @ map (\<lambda>j. Undo (m_all_rewind_info q ! j)) (rev [k..<Suc c])\<rparr>,
           getTicks (m_all_rewind_info q ! k))"
    by (intro undoUntil_found) blast+
next
  assume h: "m_all_rewind_info q' = s # evs \<and> m_current q' = length (s # evs) \<and>
    isState s \<and> isConfirmed s \<and> getTicks s = 0 \<and> list_all isEvent evs"
  then have "undo_target 5 s"
    by (simp add: undo_target_def)
  with h have "undoUntil 5 q' =
      Inr (q'\<lparr>m_current := 0, trace := trace q' @ map Undo (rev evs) @ [Undo s]\<rparr>, getTicks s)"
    by (intro undoUntil_scenario) blast+
  with h show "undoUntil 5 q' =
      Inr (q'\<lparr>m_current := 0, trace := trace q' @ map Undo (rev evs) @ [Undo s]\<rparr>, 0)"
    by simp
qed

theorem undo_to_confirmed_state_witness:
  "undoUntil 5
     \<lparr>m_all_rewind_info = [RewindInfoState 0 1 0 True, RewindInfoEvent 3 2 0 True,
                            RewindInfoEvent 7 3 0 False],
      m_network_events = [], m_current = 3, trace = []\<rparr> =
   Inr (\<lparr>m_all_rewind_info = [RewindInfoState 0 1 0 True, RewindInfoEvent 3 2 0 True,
                            RewindInfoEvent 7 3 0 False],
         m_network_events = [], m_current = 0,
         trace = [Undo (RewindInfoEvent 7 3 0 False), Undo (RewindInfoEvent 3 2 0 True),
                  Undo (RewindInfoState 0 1 0 True)]\<rparr>, 0)"
proof -
  let ?q = "\<lparr>m_all_rewind_info = [RewindInfoState 0 1 0 True, RewindInfoEvent 3 2 0 True,
                            RewindInfoEvent 7 3 0 False],
      m_network_events = [], m_current = 3, trace = []\<rparr>"
  have no: "\<forall>j. 0 < j \<and> j \<le> 2 \<longrightarrow> \<not> undo_target 5 (m_all_rewind_info ?q ! j)"
  proof (intro allI impI)
    fix j :: nat
    assume "0 < j \<and> j \<le> 2"
    then have "j = 1 \<or> j = 2" by auto
    then show "\<not> undo_target 5 (m_all_rewind_info ?q ! j)"
      by (auto simp: undo_target_def isState_def RewindInfoEvent_def)
  qed
  have tgt: "undo_target 5 (m_all_rewind_info ?q ! 0)"
    by (simp add: undo_target_def isState_def isConfirmed_def getTicks_def RewindInfoState_def)
  have up: "rev [0..<3] = [2, 1, 0::nat]"
    by (simp add: upt_rec)
  have "undoUntil 5 ?q =
      Inr (?q\<lparr>m_current := 0,
              trace := trace ?q @ map (\<lambda>j. Undo (m_all_rewind_info ?q ! j)) (rev [0..<Suc 2])\<rparr>,
           getTicks (m_all_rewind_info ?q ! 0))"
    using undo_to_confirmed_state [of 2 ?q 0 5, THEN conjunct1] no tgt
    by simp
  then show ?thesis
    by (simp add: up getTicks_def RewindInfoState_def)
qed

text \<open>
  The scenario of C3 as the specification words it, without a word on the Cursor, fails:
  after a confirmed State of tick 0 and two Events have been added to a fresh queue, the
  Cursor is still on the State, and \<open>undoUntil(5)\<close> calls \<open>undo()\<close> on the State
  only; the two Events after tick 0 are not undone.
\<close>

theorem undo_scenario_counterexample:
  "undoUntil 5 (addLocalEvent 0 0 True 7 (addLocalEvent 0 0 True 3
       (addLocalState 0 0 True 0 new_queue))) =
     Inr (\<lparr>m_all_rewind_info = [RewindInfoState 0 0 0 True, RewindInfoEvent 3 0 0 True,
                                   RewindInfoEvent 7 0 0 True],
           m_network_events = [], m_current = 0,
           trace = [Undo (RewindInfoState 0 0 0 True)]\<rparr>, 0)"
  by (simp add: undoUntil_def addLocalEvent_def addLocalState_def insertRewindInfo_def
        new_queue_def undo_target_def isState_def isEvent_def isConfirmed_def getTicks_def
        RewindInfoEvent_def RewindInfoState_def)

section \<open>Merging on a client and on a server\<close>

text \<open>
  What the loop computes on a client: \<open>needs_rewind\<close> is true exactly when some entry
  of the vector has a tick smaller than \<open>world_ticks\<close>, and \<open>rewind_ticks\<close> is
  then the result of raising the start value \<open>-9999\<close> to the tick of each such entry
  that exceeds it. This is the largest tick of those entries whenever that is at least
  \<open>-9999\<close>.
\<close>

lemma client_rewind_detection:
  assumes "isClient cfg" and "\<not> isServer cfg"
  shows "fst (snd (mergeNetworkData cfg world_ticks rt q)) =
           (filter (\<lambda>e. getTicks e < world_ticks) (m_network_events q) \<noteq> []) \<and>
         (filter (\<lambda>e. getTicks e < world_ticks) (m_network_events q) \<noteq> [] \<longrightarrow>
            snd (snd (mergeNetworkData cfg world_ticks rt q)) =
              Max (set (- 9999 # map getTicks
                     (filter (\<lambda>e. getTicks e < world_ticks) (m_network_events q)))) \<and>
            (- 9999 \<le> Max (set (map getTicks
                     (filter (\<lambda>e. getTicks e < world_ticks) (m_network_events q)))) \<longrightarrow>
             snd (snd (mergeNetworkData cfg world_ticks rt q)) =
               Max (set (map getTicks
                     (filter (\<lambda>e. getTicks e < world_ticks) (m_network_events q))))))"
proof -
  let ?past = "filter (\<lambda>e. getTicks e < world_ticks) (m_network_events q)"
  let ?ds = "filter (\<lambda>e. getTicks e \<le> world_ticks) (m_network_events q)"
  have loop: "snd (fold (merge_step cfg world_ticks) ?ds (q, False, - 9999)) =
      (?past \<noteq> [], fold max (map getTicks ?past) (- 9999))"
    using fold_merge_step_client [OF assms, of world_ticks ?ds q False "- 9999"]
    by (simp only: past_filter_drained) simp
  have nr: "fst (snd (mergeNetworkData cfg world_ticks rt q)) = (?past \<noteq> [])"
  proof (cases "m_network_events q = []")
    case True
    then show ?thesis by (simp add: mergeNetworkData_eq)
  next
    case False
    with loop show ?thesis by (simp add: mergeNetworkData_eq)
  qed
  have rt: "snd (snd (mergeNetworkData cfg world_ticks rt q)) =
              Max (set (- 9999 # map getTicks ?past))" if "?past \<noteq> []"
  proof -
    have "m_network_events q \<noteq> []"
    proof
      assume "m_network_events q = []"
      with that show False by simp
    qed
    with loop show ?thesis
      by (simp only: Max.set_eq_fold) (simp add: mergeNetworkData_eq)
  qed
  have mx: "Max (set (- 9999 # map getTicks ?past)) = Max (set (map getTicks ?past))"
    if "?past \<noteq> []" "- 9999 \<le> Max (set (map getTicks ?past))"
  proof -
    from that(1) have "map getTicks ?past \<noteq> []"
      by (simp only: map_is_Nil_conv not_False_eq_True)
    then have "set (map getTicks ?past) \<noteq> {}"
      by (simp only: set_empty not_False_eq_True)
    then have "Max (insert (- 9999) (set (map getTicks ?past))) =
               max (- 9999) (Max (set (map getTicks ?past)))"
      by (intro Max_insert) simp_all
    with that(2) show ?thesis by (simp only: list.set max_def if_True)
  qed
  show ?thesis
    using nr rt mx by simp
qed

lemma client_rewind_detection_example:
  "fst (snd (mergeNetworkData \<lparr>isServer = False, isClient = True\<rparr> 10 0
        (addNetworkEvent 1 0 7 (addNetworkEvent 1 0 3 new_queue)))) \<and>
   snd (snd (mergeNetworkData \<lparr>isServer = False, isClient = True\<rparr> 10 0
        (addNetworkEvent 1 0 7 (addNetworkEvent 1 0 3 new_queue)))) = 7"
  using client_rewind_detection [of "\<lparr>isServer = False, isClient = True\<rparr>" 10 0
          "addNetworkEvent 1 0 7 (addNetworkEvent 1 0 3 new_queue)"]
  by (simp add: addNetworkEvent_def new_queue_def RewindInfoEvent_def getTicks_def)

text \<open>
  C4. On a client with past entries in the vector, \<open>rewind_ticks\<close> is to be the
  largest tick among those entries, as the comments of \<open>mergeNetworkData\<close> say as well
  (the rewind time is the latest event received before the current world time). The code
  misses this when every past entry lies below the start value \<open>-9999\<close>: with one entry
  of tick \<open>-10000\<close> in the vector and \<open>world_ticks = 0\<close>, \<open>needs_rewind\<close> is
  true and \<open>rewind_ticks\<close> is \<open>-9999\<close>, the tick of no entry.
\<close>

theorem client_rewind_ticks_below_start_value:
  "fst (snd (mergeNetworkData \<lparr>isServer = False, isClient = True\<rparr> 0 0
        (addNetworkEvent 1 0 (- 10000) new_queue))) \<and>
   snd (snd (mergeNetworkData \<lparr>isServer = False, isClient = True\<rparr> 0 0
        (addNetworkEvent 1 0 (- 10000) new_queue))) = - 9999 \<and>
   map getTicks (m_network_events (addNetworkEvent 1 0 (- 10000) new_queue)) = [- 10000]"
  by (simp add: mergeNetworkData_def merge_step_def addNetworkEvent_def new_queue_def
        RewindInfoEvent_def getTicks_def Let_def)

text \<open>
  C5. On a server \<open>needs_rewind\<close> is false, and the main list after the merge is the
  one obtained by inserting, in the order of the vector, every entry with tick at most
  \<open>world_ticks\<close>, an entry with a smaller tick having its tick set to
  \<open>world_ticks\<close> first.
\<close>

theorem server_never_rewinds:
  assumes "isServer cfg"
  shows "fst (snd (mergeNetworkData cfg world_ticks rt q)) = False \<and>
         m_all_rewind_info (fst (mergeNetworkData cfg world_ticks rt q)) =
           m_all_rewind_info (fold insertRewindInfo
             (map (\<lambda>e. if getTicks e < world_ticks then setTicks world_ticks e else e)
                (filter (\<lambda>e. getTicks e \<le> world_ticks) (m_network_events q))) q)"
proof -
  have "fst (snd (fold (merge_step cfg world_ticks)
          (filter (\<lambda>e. getTicks e \<le> world_ticks) (m_network_events q)) (q, False, - 9999))) = False"
    using assms by (rule fold_merge_step_server) simp
  then have "fst (snd (mergeNetworkData cfg world_ticks rt q)) = False"
    by (simp add: mergeNetworkData_eq)
  moreover note mergeNetworkData_log [of cfg world_ticks rt q]
  ultimately show ?thesis
    by (simp only: merged_entry_server [OF assms])
qed

theorem server_never_rewinds_witness:
  "fst (snd (mergeNetworkData \<lparr>isServer = True, isClient = False\<rparr> 10 0
        (addNetworkEvent 1 0 7 new_queue))) = False \<and>
   m_all_rewind_info (fst (mergeNetworkData \<lparr>isServer = True, isClient = False\<rparr> 10 0
        (addNetworkEvent 1 0 7 new_queue))) = [RewindInfoEvent 10 1 0 True]"
  using server_never_rewinds [of "\<lparr>isServer = True, isClient = False\<rparr>" 10 0
          "addNetworkEvent 1 0 7 new_queue"]
  by (simp add: addNetworkEvent_def new_queue_def RewindInfoEvent_def getTicks_def
        setTicks_def insertRewindInfo_def)

section \<open>Replay\<close>

text \<open>
  C6. Let \<open>run\<close> be the longest stretch of Records starting at the Cursor whose tick
  is \<open>t\<close>. \<open>replayAllEvents t\<close> moves the Cursor past \<open>run\<close> and calls
  \<open>rewind()\<close> on the Events of \<open>run\<close>, in their order, and on nothing else; nothing
  else of the queue changes. Where the Cursor stops there is either no Record or a Record
  with another tick.
\<close>

theorem replay_scoping:
  "replayAllEvents t q =
     q\<lparr>m_current := m_current q +
          length (takeWhile (\<lambda>r. getTicks r = t) (drop (m_current q) (m_all_rewind_info q))),
       trace := trace q @ map Rewind (filter isEvent
          (takeWhile (\<lambda>r. getTicks r = t) (drop (m_current q) (m_all_rewind_info q))))\<rparr> \<and>
   (m_current (replayAllEvents t q) < length (m_all_rewind_info q) \<longrightarrow>
      getTicks (m_all_rewind_info q ! m_current (replayAllEvents t q)) \<noteq> t)"
proof -
  define c where "c = m_current q"
  define xs where "xs = m_all_rewind_info q"
  define run where "run = takeWhile (\<lambda>r. getTicks r = t) (drop c xs)"
  have eq: "replayAllEvents t q =
      q\<lparr>m_current := c + length run, trace := trace q @ map Rewind (filter isEvent run)\<rparr>"
    by (simp add: replayAllEvents_def replay_loop_eq c_def xs_def run_def)
  have "getTicks (xs ! (c + length run)) \<noteq> t" if "c + length run < length xs"
  proof -
    from that have "length run < length (drop c xs)" by simp
    then have "\<not> getTicks (drop c xs ! length run) = t"
      unfolding run_def by (rule nth_length_takeWhile)
    with that show ?thesis by (simp add: add.commute)
  qed
  with eq show ?thesis
    by (simp add: c_def xs_def run_def)
qed

theorem replay_scoping_witness:
  "replayAllEvents 4
     \<lparr>m_all_rewind_info = [RewindInfoState 4 1 0 True, RewindInfoEvent 4 2 0 True,
                            RewindInfoEvent 4 3 0 False, RewindInfoEvent 5 4 0 True],
      m_network_events = [], m_current = 0, trace = []\<rparr> =
     \<lparr>m_all_rewind_info = [RewindInfoState 4 1 0 True, RewindInfoEvent 4 2 0 True,
                            RewindInfoEvent 4 3 0 False, RewindInfoEvent 5 4 0 True],
      m_network_events = [], m_current = 3,
      trace = [Rewind (RewindInfoEvent 4 2 0 True), Rewind (RewindInfoEvent 4 3 0 False)]\<rparr>"
  using replay_scoping [of 4 "\<lparr>m_all_rewind_info = [RewindInfoState 4 1 0 True,
      RewindInfoEvent 4 2 0 True, RewindInfoEvent 4 3 0 False, RewindInfoEvent 5 4 0 True],
      m_network_events = [], m_current = 0, trace = []\<rparr>"]
  by (simp add: RewindInfoEvent_def RewindInfoState_def getTicks_def isEvent_def)

section \<open>The Cursor after an insertion\<close>

text \<open>
  C7. If the Cursor is at end-of-log, then after \<open>insertRewindInfo ri\<close> the Cursor is
  a position of the main list, the Record there is \<open>ri\<close>, \<open>hasMoreRewindInfo\<close> is
  true and \<open>getCurrent\<close> yields \<open>ri\<close>.
\<close>

theorem cursor_repair:
  assumes "m_current q = end_of_log q"
  shows "m_current (insertRewindInfo ri q) < end_of_log (insertRewindInfo ri q) \<and>
         m_all_rewind_info (insertRewindInfo ri q) ! m_current (insertRewindInfo ri q) = ri \<and>
         hasMoreRewindInfo (insertRewindInfo ri q) \<and>
         getCurrent (insertRewindInfo ri q) = Some ri"
proof -
  let ?xs = "m_all_rewind_info q"
  let ?i = "insert_scan ri ?xs (length ?xs)"
  have i: "?i \<le> length ?xs" by (rule insert_scan_le)
  have cur: "m_current (insertRewindInfo ri q) = ?i"
    using assms by (simp add: insertRewindInfo_def Let_def end_of_log_def)
  have len: "end_of_log (insertRewindInfo ri q) = Suc (length ?xs)"
    by (simp add: end_of_log_def insertRewindInfo_log)
  have at: "m_all_rewind_info (insertRewindInfo ri q) ! ?i = ri"
    using i by (simp add: insertRewindInfo_log nth_append)
  show ?thesis
    using i cur len at by (simp add: hasMoreRewindInfo_def getCurrent_def)
qed

text \<open>
  The scenario of the unit test: one Event is added and consumed, so that the Cursor is at
  end-of-log; the Event added next is the current one.
\<close>

theorem cursor_repair_witness:
  "m_current (addLocalEvent 0 0 True 1 new_queue) = 0 \<and>
   m_current (replayAllEvents 1 (addLocalEvent 0 0 True 1 new_queue)) =
     end_of_log (replayAllEvents 1 (addLocalEvent 0 0 True 1 new_queue)) \<and>
   getCurrent (insertRewindInfo (RewindInfoEvent 2 0 0 True)
      (replayAllEvents 1 (addLocalEvent 0 0 True 1 new_queue))) = Some (RewindInfoEvent 2 0 0 True)"
proof -
  have e: "m_current (replayAllEvents 1 (addLocalEvent 0 0 True 1 new_queue)) =
     end_of_log (replayAllEvents 1 (addLocalEvent 0 0 True 1 new_queue))"
    by (simp add: replayAllEvents_def replay_loop_eq addLocalEvent_def insertRewindInfo_def
        new_queue_def RewindInfoEvent_def getTicks_def isEvent_def end_of_log_def)
  have "m_current (addLocalEvent 0 0 True 1 new_queue) = 0"
    by (simp add: addLocalEvent_def insertRewindInfo_def new_queue_def)
  with e cursor_repair [OF e, of "RewindInfoEvent 2 0 0 True"] show ?thesis by simp
qed

section \<open>What a merge takes from the vector\<close>

text \<open>
  C8. After \<open>mergeNetworkData\<close> the vector holds exactly its entries with tick above
  \<open>world_ticks\<close>, in their order, and the main list is the one obtained by inserting the
  other entries (as the merge inserts them) in the order of the vector. If every entry of
  the vector has a tick above \<open>world_ticks\<close>, the queue is left as it was: the main
  list is unchanged and a vector that was not empty is still not empty.
\<close>

theorem merge_drains_up_to_now:
  "m_network_events (fst (mergeNetworkData cfg world_ticks rt q)) =
     filter (\<lambda>e. world_ticks < getTicks e) (m_network_events q) \<and>
   m_all_rewind_info (fst (mergeNetworkData cfg world_ticks rt q)) =
     m_all_rewind_info (fold insertRewindInfo
        (map (merged_entry cfg world_ticks)
           (filter (\<lambda>e. getTicks e \<le> world_ticks) (m_network_events q))) q) \<and>
   (list_all (\<lambda>e. world_ticks < getTicks e) (m_network_events q) \<longrightarrow>
      fst (mergeNetworkData cfg world_ticks rt q) = q \<and>
      (m_network_events q \<noteq> [] \<longrightarrow>
         m_network_events (fst (mergeNetworkData cfg world_ticks rt q)) \<noteq> []))"
proof -
  have "fst (mergeNetworkData cfg world_ticks rt q) = q"
    if "list_all (\<lambda>e. world_ticks < getTicks e) (m_network_events q)"
  proof -
    from that have all: "\<forall>e\<in>set (m_network_events q). world_ticks < getTicks e"
      by (simp add: list_all_iff)
    then have "filter (\<lambda>e. world_ticks < getTicks e) (m_network_events q) = m_network_events q"
      by (simp only: filter_True)
    moreover from all have "filter (\<lambda>e. getTicks e \<le> world_ticks) (m_network_events q) = []"
      by (auto simp: filter_empty_conv)
    ultimately show ?thesis
      by (simp add: mergeNetworkData_eq)
  qed
  then show ?thesis
    by (simp add: mergeNetworkData_inbox mergeNetworkData_log)
qed

theorem merge_drains_up_to_now_witness:
  "m_network_events (fst (mergeNetworkData \<lparr>isServer = False, isClient = True\<rparr> 10 0
      (addNetworkState 1 0 15 (addNetworkEvent 1 0 12 (addLocalState 0 0 True 0 new_queue))))) =
     [RewindInfoEvent 12 1 0 True, RewindInfoState 15 1 0 True] \<and>
   m_all_rewind_info (fst (mergeNetworkData \<lparr>isServer = False, isClient = True\<rparr> 10 0
      (addNetworkState 1 0 15 (addNetworkEvent 1 0 12 (addLocalState 0 0 True 0 new_queue))))) =
     [RewindInfoState 0 0 0 True]"
  using merge_drains_up_to_now [of "\<lparr>isServer = False, isClient = True\<rparr>" 10 0
    "addNetworkState 1 0 15 (addNetworkEvent 1 0 12 (addLocalState 0 0 True 0 new_queue))"]
  by (simp add: addNetworkEvent_def addNetworkState_def addLocalState_def new_queue_def
        RewindInfoEvent_def RewindInfoState_def getTicks_def insertRewindInfo_def)

section \<open>Undo without a confirmed State\<close>

text \<open>
  C9, as the code has it. If no position from the start of the walk down to the first
  Record holds a confirmed State with tick at most \<open>undo_ticks\<close>, \<open>undoUntil\<close>
  calls \<open>undo()\<close> on all these Records, logs an error and returns \<open>-1\<close> as an
  ordinary result, with the Cursor at end-of-log. Nothing is raised.
\<close>

theorem undo_without_confirmed_state:
  assumes "c = (if m_current q \<noteq> 0 then m_current q - 1 else m_current q)"
    and "c < length (m_all_rewind_info q)"
    and "\<forall>j. j \<le> c \<longrightarrow> \<not> undo_target undo_ticks (m_all_rewind_info q ! j)"
  shows "undoUntil undo_ticks q =
     Inr (q\<lparr>m_current := end_of_log q,
             trace := trace q @ map (\<lambda>j. Undo (m_all_rewind_info q ! j)) (rev [0..<Suc c])
                      @ [LogError undo_ticks]\<rparr>,
          - 1)"
  using assms by (simp only: end_of_log_def) (intro undoUntil_not_found, blast+)

theorem undo_without_confirmed_state_witness:
  "undoUntil 5
     \<lparr>m_all_rewind_info = [RewindInfoState 0 1 0 False, RewindInfoEvent 3 2 0 True],
      m_network_events = [], m_current = 2, trace = []\<rparr> =
   Inr (\<lparr>m_all_rewind_info = [RewindInfoState 0 1 0 False, RewindInfoEvent 3 2 0 True],
         m_network_events = [], m_current = 2,
         trace = [Undo (RewindInfoEvent 3 2 0 True), Undo (RewindInfoState 0 1 0 False),
                  LogError 5]\<rparr>, - 1)"
proof -
  let ?q = "\<lparr>m_all_rewind_info = [RewindInfoState 0 1 0 False, RewindInfoEvent 3 2 0 True],
      m_network_events = [], m_current = 2, trace = []\<rparr>"
  have no: "\<forall>j. j \<le> 1 \<longrightarrow> \<not> undo_target 5 (m_all_rewind_info ?q ! j)"
  proof (intro allI impI)
    fix j :: nat
    assume "j \<le> 1"
    then have "j = 0 \<or> j = 1" by auto
    then show "\<not> undo_target 5 (m_all_rewind_info ?q ! j)"
      by (auto simp: undo_target_def isState_def isConfirmed_def RewindInfoEvent_def
            RewindInfoState_def)
  qed
  have up: "rev [0..<2] = [1, 0::nat]"
    by (simp add: upt_rec)
  have "undoUntil 5 ?q =
     Inr (?q\<lparr>m_current := end_of_log ?q,
             trace := trace ?q @ map (\<lambda>j. Undo (m_all_rewind_info ?q ! j)) (rev [0..<Suc 1])
                      @ [LogError 5]\<rparr>,
          - 1)"
    using no by (intro undo_without_confirmed_state) simp_all
  then show ?thesis
    by (simp add: up end_of_log_def)
qed

text \<open>
  C9 as the specification words it fails on a queue that holds one Event: the call
  returns \<open>-1\<close>.
\<close>

theorem undo_failure_counterexample:
  "undoUntil 5 (addLocalEvent 0 0 True 3 new_queue) =
     Inr (\<lparr>m_all_rewind_info = [RewindInfoEvent 3 0 0 True], m_network_events = [],
           m_current = 1,
           trace = [Undo (RewindInfoEvent 3 0 0 True), LogError 5]\<rparr>, - 1)"
  by (simp add: undoUntil_def addLocalEvent_def insertRewindInfo_def new_queue_def
        undo_target_def isState_def RewindInfoEvent_def)

section \<open>Emptiness\<close>

text \<open>
  C10. \<open>isEmpty\<close> is the negation of \<open>hasMoreRewindInfo\<close> in every state, and
  holds exactly when the Cursor is at end-of-log. It holds for a fresh queue and also for a
  queue whose only Record has been consumed, whose main list is not empty.
\<close>

theorem isEmpty_iff:
  "isEmpty q = (\<not> hasMoreRewindInfo q) \<and>
   isEmpty q = (m_current q = length (m_all_rewind_info q)) \<and>
   isEmpty new_queue \<and>
   isEmpty (replayAllEvents 1 (addLocalEvent 0 0 True 1 new_queue)) \<and>
   m_all_rewind_info (replayAllEvents 1 (addLocalEvent 0 0 True 1 new_queue)) \<noteq> []"
  by (simp add: isEmpty_def hasMoreRewindInfo_def replayAllEvents_def replay_loop_eq
        addLocalEvent_def insertRewindInfo_def new_queue_def RewindInfoEvent_def getTicks_def
        isEvent_def end_of_log_def)

end
